theory Spec2Isabelle
  imports Main "HOL-Library.Word" "HOL-Library.Sublist"
begin

section \<open>JavaScript strings\<close>

text \<open>
  A JavaScript string is a sequence of UTF-16 code units; \<open>length\<close>, \<open>slice\<close>,
  \<open>startsWith\<close>, \<open>lastIndexOf\<close> and \<open>split\<close> all count and cut in code units.
  String literals of the source are written \<open>js ''...''\<close>.
\<close>

type_synonym jsstring = "16 word list"

definition js :: "string \<Rightarrow> jsstring" where
  "js s = map (\<lambda>c. of_nat (of_char c)) s"

definition is_high_surrogate :: "16 word \<Rightarrow> bool" where
  "is_high_surrogate c = (0xD800 \<le> c \<and> c \<le> 0xDBFF)"

definition is_low_surrogate :: "16 word \<Rightarrow> bool" where
  "is_low_surrogate c = (0xDC00 \<le> c \<and> c \<le> 0xDFFF)"

text \<open>
  \<open>s.isWellFormed()\<close>: every surrogate is half of a pair, a high one followed by a low
  one. These are the strings that \<open>encodeURIComponent\<close> accepts; on any other it throws a
  \<open>URIError\<close>.
\<close>

fun isWellFormed :: "jsstring \<Rightarrow> bool" where
  "isWellFormed [] = True"
| "isWellFormed [c] = (\<not> is_high_surrogate c \<and> \<not> is_low_surrogate c)"
| "isWellFormed (c # d # cs) =
     (if is_high_surrogate c then is_low_surrogate d \<and> isWellFormed cs
      else \<not> is_low_surrogate c \<and> isWellFormed (d # cs))"

text \<open>
  The number of UTF-8 bytes of one code unit that is not part of a surrogate pair.
  A lone surrogate is encoded by \<open>TextEncoder\<close> as U+FFFD, which takes three bytes.
\<close>

definition utf8_len :: "16 word \<Rightarrow> nat" where
  "utf8_len c = (if c < 0x80 then 1 else if c < 0x800 then 2 else 3)"

text \<open>
  \<open>bytes(str)\<close> is \<open>new TextEncoder().encode(str).length\<close>: a surrogate pair is one
  code point beyond U+FFFF and takes four bytes.
\<close>

fun bytes :: "jsstring \<Rightarrow> nat" where
  "bytes [] = 0"
| "bytes [c] = utf8_len c"
| "bytes (c # d # cs) =
     (if is_high_surrogate c \<and> is_low_surrogate d then 4 + bytes cs
      else utf8_len c + bytes (d # cs))"

text \<open>\<open>s.slice(0, n)\<close> for an integer \<open>n \<ge> 0\<close>.\<close>

definition slice_to :: "jsstring \<Rightarrow> nat \<Rightarrow> jsstring" where
  "slice_to s n = take n s"

text \<open>
  \<open>s.slice(-n)\<close> for an integer \<open>n \<ge> 0\<close>. A negative start counts from the end,
  clamped at the start of the string; \<open>-0\<close> is \<open>0\<close>, so \<open>s.slice(-0)\<close> is the whole of \<open>s\<close>.
\<close>

definition slice_last :: "jsstring \<Rightarrow> nat \<Rightarrow> jsstring" where
  "slice_last s n = (if n = 0 then s else drop (length s - n) s)"

text \<open>\<open>xs.join(sep)\<close> on an array of strings.\<close>

fun join :: "jsstring \<Rightarrow> jsstring list \<Rightarrow> jsstring" where
  "join sep [] = []"
| "join sep [x] = x"
| "join sep (x # y # ys) = x @ sep @ join sep (y # ys)"

text \<open>The decimal rendering of a number in a template literal.\<close>

fun decimal :: "nat \<Rightarrow> jsstring" where
  "decimal n =
     (if n < 10 then [of_nat (48 + n)]
      else decimal (n div 10) @ [of_nat (48 + n mod 10)])"

declare decimal.simps [simp del]

section \<open>The analyze route\<close>

subsection \<open>Limits\<close>

definition MAX_TOTAL_BYTES :: nat where
  "MAX_TOTAL_BYTES = 200000"

definition MAX_FILE_BYTES :: int where
  "MAX_FILE_BYTES = 40000"

definition MAX_FILES :: nat where
  "MAX_FILES = 50"

subsection \<open>Content truncator\<close>

definition marker :: jsstring where
  "marker = js ''\<newline>/* ... truncated middle due to size limits ... */\<newline>''"

text \<open>
  \<open>maybeTruncateContent(content, limit)\<close> returns \<open>{ text, truncated }\<close>, here a pair.
  The limit is an integer; \<open>Math.floor(limit / 2)\<close> is then \<open>limit div 2\<close>.
\<close>

definition maybeTruncateContent :: "jsstring \<Rightarrow> int \<Rightarrow> jsstring \<times> bool" where
  "maybeTruncateContent content limit =
     (if int (bytes content) \<le> limit then (content, False)
      else
        let half = nat (max 0 (limit div 2));
            head = slice_to content half;
            tail = slice_last content half;
            combined = head @ marker @ tail
        in (combined, True))"

subsection \<open>Bundle budgeter\<close>

record source_file =
  path :: jsstring
  content :: jsstring

text \<open>
  The loop \<open>for (const f of files)\<close> that enforces the global size cap, with its three
  variables \<open>total\<close> (here \<open>tot\<close>), \<open>bounded\<close> and \<open>truncatedAny\<close> passed along; \<open>break\<close> returns them.
\<close>

fun enforce_cap :: "source_file list \<Rightarrow> nat \<Rightarrow> source_file list \<Rightarrow> bool \<Rightarrow> nat \<times> source_file list \<times> bool" where
  "enforce_cap [] tot bounded truncatedAny = (tot, bounded, truncatedAny)"
| "enforce_cap (f # fs) tot bounded truncatedAny =
     (let sz = bytes (content f)
      in if tot + sz > MAX_TOTAL_BYTES then (tot, bounded, True)
         else enforce_cap fs (tot + sz) (bounded @ [f]) truncatedAny)"

text \<open>The byte size of a list of files, as the sum of the UTF-8 lengths of their contents.\<close>

definition summed_bytes :: "source_file list \<Rightarrow> nat" where
  "summed_bytes fs = sum_list (map (\<lambda>f. bytes (content f)) fs)"

subsection \<open>Remote content fetcher\<close>

text \<open>
  What the remote services answer is the environment of a request. The contents endpoint
  either makes \<open>fetch\<close> or \<open>res.json()\<close> reject (with the message of the error), or answers
  with a status that is not ok and a body text, or answers with a JSON object, of which
  only the fields \<open>content\<close> and \<open>encoding\<close> are read. The raw-content host either rejects,
  or answers not ok, or answers with a text. One request is answered the same way throughout
  one run of the route. An endpoint answers only the requests that are sent.
\<close>

datatype contents_answer =
    ContentsThrows jsstring
  | ContentsNotOk nat jsstring
  | ContentsJson "jsstring option" "jsstring option"

datatype raw_answer =
    RawThrows jsstring
  | RawNotOk
  | RawText jsstring

text \<open>
  The fields of \<open>world\<close>: the two endpoints by owner, repo, path and ref;
  \<open>Buffer.from(c, "base64").toString("utf-8")\<close>; and \<open>ai.models.generateContent\<close> by the
  prompt, which rejects with a message or resolves to a response whose \<open>text\<close> may be undefined.
\<close>

record world =
  contents_api :: "jsstring \<Rightarrow> jsstring \<Rightarrow> jsstring \<Rightarrow> jsstring \<Rightarrow> contents_answer"
  raw_host :: "jsstring \<Rightarrow> jsstring \<Rightarrow> jsstring \<Rightarrow> jsstring \<Rightarrow> raw_answer"
  base64_to_utf8 :: "jsstring \<Rightarrow> jsstring"
  generateContent :: "jsstring \<Rightarrow> jsstring + jsstring option"

text \<open>The requests a run sends out, in order.\<close>

datatype event =
    FetchContents jsstring jsstring jsstring jsstring
  | FetchRaw jsstring jsstring jsstring jsstring
  | ModelCall jsstring

text \<open>\<open>a || b\<close> on strings: the empty string is falsy.\<close>

definition or_else :: "jsstring \<Rightarrow> jsstring \<Rightarrow> jsstring" where
  "or_else a b = (if a = [] then b else a)"

text \<open>
  \<open>ghGetContent(owner, repo, path, ref)\<close>: the thrown error's message on the left, the
  content on the right, together with the requests sent. The address of the contents
  request holds \<open>encodeURIComponent(path)\<close> and \<open>encodeURIComponent(ref)\<close>, which are
  evaluated before \<open>fetch\<close> is called: when the path or the ref is not well formed, the
  \<open>URIError\<close> (whose message is \<open>URI malformed\<close>) is thrown and no request is sent.
\<close>

definition ghGetContent ::
  "world \<Rightarrow> jsstring \<Rightarrow> jsstring \<Rightarrow> jsstring \<Rightarrow> jsstring \<Rightarrow> (jsstring + jsstring) \<times> event list" where
  "ghGetContent w owner repo p ref =
     (if \<not> isWellFormed p \<or> \<not> isWellFormed ref then (Inl (js ''URI malformed''), [])
      else
        (case contents_api w owner repo p ref of
           ContentsThrows m \<Rightarrow> (Inl m, [FetchContents owner repo p ref])
         | ContentsNotOk status msg \<Rightarrow>
             (Inl (js ''GitHub content error '' @ decimal status @ js '': '' @ msg),
              [FetchContents owner repo p ref])
         | ContentsJson c encoding \<Rightarrow>
             if c \<noteq> None \<and> c \<noteq> Some [] \<and> encoding = Some (js ''base64'')
             then (Inr (base64_to_utf8 w (the c)), [FetchContents owner repo p ref])
             else
               (case raw_host w owner repo p ref of
                  RawThrows m \<Rightarrow>
                    (Inl m, [FetchContents owner repo p ref, FetchRaw owner repo p ref])
                | RawNotOk \<Rightarrow>
                    (Inl (js ''Failed to fetch raw content for '' @ p),
                     [FetchContents owner repo p ref, FetchRaw owner repo p ref])
                | RawText t \<Rightarrow>
                    (Inr t, [FetchContents owner repo p ref, FetchRaw owner repo p ref]))))"

subsection \<open>The request handler\<close>

text \<open>
  A file of a snippet request as it arrives: \<open>path\<close> and \<open>content\<close> may be missing.
\<close>

record snippet_file =
  given_path :: "jsstring option"
  given_content :: "jsstring option"

datatype AnalyzeBody =
    Snippet "snippet_file list option"
  | Github jsstring jsstring jsstring "jsstring list option"
  | OtherMode

datatype AnalyzeResponse =
    Success (response_text: "jsstring option") (response_truncated: bool) (totalBytes: nat) (fileCount: nat)
  | Failure (http_status: nat) (error_message: jsstring)

text \<open>\<open>f.content ?? ""\<close> and \<open>f.path || "snippet.ts"\<close>.\<close>

definition content_or_empty :: "snippet_file \<Rightarrow> jsstring" where
  "content_or_empty f = (case given_content f of None \<Rightarrow> [] | Some c \<Rightarrow> c)"

definition path_or_default :: "snippet_file \<Rightarrow> jsstring" where
  "path_or_default f =
     (case given_path f of None \<Rightarrow> js ''snippet.ts'' | Some p \<Rightarrow> or_else p (js ''snippet.ts''))"

text \<open>
  The callback of \<open>.map\<close> in snippet mode, run over the files in order; it sets
  \<open>truncatedAny\<close> as a side effect.
\<close>

fun snippet_files :: "snippet_file list \<Rightarrow> bool \<Rightarrow> source_file list \<times> bool" where
  "snippet_files [] truncatedAny = ([], truncatedAny)"
| "snippet_files (f # fs) truncatedAny =
     (case maybeTruncateContent (content_or_empty f) MAX_FILE_BYTES of
        (text, truncated) \<Rightarrow>
          (case snippet_files fs (if truncated then True else truncatedAny) of
             (rest, truncatedAny') \<Rightarrow>
               (\<lparr>path = path_or_default f, content = text\<rparr> # rest, truncatedAny')))"

text \<open>
  The loop \<open>for (const p of paths)\<close> in github mode: a failed fetch throws out of the loop.
\<close>

fun fetch_files ::
  "world \<Rightarrow> jsstring \<Rightarrow> jsstring \<Rightarrow> jsstring \<Rightarrow> jsstring list \<Rightarrow> source_file list \<Rightarrow> bool
     \<Rightarrow> (jsstring + source_file list \<times> bool) \<times> event list" where
  "fetch_files w owner repo ref [] files truncatedAny = (Inr (files, truncatedAny), [])"
| "fetch_files w owner repo ref (p # ps) files truncatedAny =
     (case ghGetContent w owner repo p ref of
        (Inl m, evs) \<Rightarrow> (Inl m, evs)
      | (Inr raw, evs) \<Rightarrow>
          (case maybeTruncateContent raw MAX_FILE_BYTES of
             (text, truncated) \<Rightarrow>
               (case fetch_files w owner repo ref ps (files @ [\<lparr>path = p, content = text\<rparr>])
                       (if truncated then True else truncatedAny) of
                  (r, evs') \<Rightarrow> (r, evs @ evs'))))"

definition header_lines :: "string list" where
  "header_lines =
     [''You are a senior code reviewer. Analyze the following files and provide a structured review in JSON format with the following categories(only give categories that are relevant, skip others):'',
      ''1. Code Quality & Readability'',
      ''2. Correctness / Logic'',
      ''3. Security & Vulnerability'',
      ''4. Performance & Optimization'',
      ''5. Maintainability & Scalability'',
      ''6. Documentation & Comments'',
      ''7. Testing & Coverage'',
      ''8. Standards & Conventions'',
      ''9. Dependency Management'',
      ''10. Security Compliance'',
      ''11. Code Structure & Architecture'',
      ''12. Reusability & Modularity'',
      [],
      ''For each category, provide findings, severity (HIGH, MEDIUM, LOW), and specific suggestions with code examples where applicable.'']"

text \<open>The template literal of the header: every line above ends with a line feed.\<close>

definition header :: jsstring where
  "header = concat (map (\<lambda>l. js l @ js ''\<newline>'') header_lines)"

definition render_bundle :: "source_file list \<Rightarrow> jsstring" where
  "render_bundle bounded =
     join (js ''\<newline>'')
       (map (\<lambda>f. js ''===== FILE: '' @ path f @ js '' =====\<newline>'' @ content f @ js ''\<newline>'') bounded)"

definition prompt :: "source_file list \<Rightarrow> jsstring" where
  "prompt bounded = header @ js ''\<newline>'' @ render_bundle bounded"

text \<open>
  The part of the handler after the files are gathered: the size cap, the prompt and
  the model call. \<open>evs\<close> are the requests already sent.
\<close>

definition review ::
  "world \<Rightarrow> source_file list \<Rightarrow> bool \<Rightarrow> event list \<Rightarrow> AnalyzeResponse \<times> event list" where
  "review w files truncatedAny evs =
     (case enforce_cap files 0 [] truncatedAny of
        (tot, bounded, truncatedAny') \<Rightarrow>
          (case generateContent w (prompt bounded) of
             Inl m \<Rightarrow>
               (Failure 400 (or_else m (js ''Failed to analyze'')),
                evs @ [ModelCall (prompt bounded)])
           | Inr text \<Rightarrow>
               (Success text truncatedAny' tot (length bounded),
                evs @ [ModelCall (prompt bounded)])))"

text \<open>\<open>body.files || []\<close> and \<open>body.paths || []\<close>.\<close>

definition or_empty :: "'a list option \<Rightarrow> 'a list" where
  "or_empty xs = (case xs of None \<Rightarrow> [] | Some ys \<Rightarrow> ys)"

text \<open>The handler \<open>POST\<close> of the analyze route: the response and the requests sent.\<close>

definition POST_analyze :: "world \<Rightarrow> AnalyzeBody \<Rightarrow> AnalyzeResponse \<times> event list" where
  "POST_analyze w body =
     (case body of
        Snippet fs \<Rightarrow>
          (case snippet_files (take MAX_FILES (or_empty fs)) False of
             (files, truncatedAny) \<Rightarrow> review w files truncatedAny [])
      | Github owner repo ref ps \<Rightarrow>
          (case fetch_files w owner repo ref (take MAX_FILES (or_empty ps)) [] False of
             (Inl m, evs) \<Rightarrow> (Failure 400 (or_else m (js ''Failed to analyze'')), evs)
           | (Inr (files, truncatedAny), evs) \<Rightarrow> review w files truncatedAny evs)
      | OtherMode \<Rightarrow> (Failure 400 (js ''Unsupported mode''), []))"

section \<open>The list-files route\<close>

subsection \<open>More string operations\<close>

text \<open>\<open>s.split(sep)\<close> for a separator of one code unit: \<open>"".split("/")\<close> is \<open>[""]\<close>.\<close>

fun split :: "16 word \<Rightarrow> jsstring \<Rightarrow> jsstring list" where
  "split sep [] = [[]]"
| "split sep (c # cs) =
     (if c = sep then [] # split sep cs
      else (case split sep cs of
              [] \<Rightarrow> [[c]]
            | x # xs \<Rightarrow> (c # x) # xs))"

text \<open>\<open>xs[i]\<close>, which is undefined beyond the end of the array.\<close>

fun at_index :: "'a list \<Rightarrow> nat \<Rightarrow> 'a option" where
  "at_index [] i = None"
| "at_index (x # xs) 0 = Some x"
| "at_index (x # xs) (Suc i) = at_index xs i"

definition startsWith :: "jsstring \<Rightarrow> jsstring \<Rightarrow> bool" where
  "startsWith s pre = (take (length pre) s = pre)"

definition endsWith :: "jsstring \<Rightarrow> jsstring \<Rightarrow> bool" where
  "endsWith s suf = (length suf \<le> length s \<and> drop (length s - length suf) s = suf)"

text \<open>\<open>s.lastIndexOf(c)\<close> for one code unit \<open>c\<close>; \<open>None\<close> stands for \<open>-1\<close>.\<close>

fun lastIndexOf :: "jsstring \<Rightarrow> 16 word \<Rightarrow> nat option" where
  "lastIndexOf [] c = None"
| "lastIndexOf (x # xs) c =
     (case lastIndexOf xs c of
        Some i \<Rightarrow> Some (Suc i)
      | None \<Rightarrow> if x = c then Some 0 else None)"

text \<open>
  \<open>s.toLowerCase()\<close> maps by the Unicode default case conversion. The model is exact on
  the letters \<open>A\<close> to \<open>Z\<close> and on U+212A (the Kelvin sign, whose lower case is \<open>k\<close>), the only
  code units whose lower-case mapping consists of ASCII code units. Every other code unit
  is left as it is: JavaScript leaves it or replaces it by code units of which at least one
  is not ASCII (U+0130 becomes \<open>i\<close> followed by U+0307), so a comparison of the result with
  an ASCII string comes out the same.
\<close>

definition lower_unit :: "16 word \<Rightarrow> 16 word" where
  "lower_unit c =
     (if 0x41 \<le> c \<and> c \<le> 0x5A then c + 0x20
      else if c = 0x212A then 0x6B
      else c)"

definition toLowerCase :: "jsstring \<Rightarrow> jsstring" where
  "toLowerCase s = map lower_unit s"

subsection \<open>Repository reference parser\<close>

text \<open>
  Of the object that \<open>new URL(url)\<close> builds, the parser reads \<open>hostname\<close> and \<open>pathname\<close>.
  The constructor belongs to the platform: it is a parameter \<open>URL\<close> of the parser below,
  which answers the message of the error on the left when it throws.
\<close>

record url =
  hostname :: jsstring
  pathname :: jsstring

text \<open>
  The result \<open>{ owner, repo, ref?, path? }\<close>; its field \<open>path\<close> is called \<open>rootPath\<close>
  here, as the handler calls it.
\<close>

record RepoReference =
  owner :: jsstring
  repo :: jsstring
  ref :: "jsstring option"
  rootPath :: "jsstring option"

text \<open>
  \<open>parseGitHubUrl(url)\<close>: the message of the thrown error on the left. The \<open>catch\<close> clause
  throws a new error with the message of the one caught, or \<open>"Invalid URL"\<close> when that is empty.
\<close>

definition parseGitHubUrl :: "(jsstring \<Rightarrow> jsstring + url) \<Rightarrow> jsstring \<Rightarrow> jsstring + RepoReference" where
  "parseGitHubUrl URL url_string =
     (case URL url_string of
        Inl m \<Rightarrow> Inl (or_else m (js ''Invalid URL''))
      | Inr u \<Rightarrow>
          if hostname u \<noteq> js ''github.com''
          then Inl (or_else (js ''Only github.com links are supported'') (js ''Invalid URL''))
          else
            let parts = filter (\<lambda>s. s \<noteq> []) (split 0x2F (pathname u))
            in if length parts < 2
               then Inl (or_else (js ''Invalid repository URL'') (js ''Invalid URL''))
               else if at_index parts 2 = Some (js ''tree'') \<or> at_index parts 2 = Some (js ''blob'')
               then Inr \<lparr>owner = parts ! 0, repo = parts ! 1, ref = at_index parts 3,
                         rootPath = Some (join (js ''/'') (drop 4 parts))\<rparr>
               else Inr \<lparr>owner = parts ! 0, repo = parts ! 1, ref = None, rootPath = None\<rparr>)"

subsection \<open>Remote file lister\<close>

text \<open>
  The answer to one call of \<open>gh\<close>: \<open>fetch\<close> or \<open>res.json()\<close> rejects, or the status is not
  ok, or the JSON arrives. The address of the call is built by the caller; an error thrown
  while building it (the \<open>URIError\<close> of \<open>encodeURIComponent(ref)\<close> for a ref that is not well
  formed) reaches the handler's \<open>catch\<close> like a rejected \<open>fetch\<close> and is an answer
  \<open>GhThrows\<close> here.
\<close>

datatype 'a gh_answer =
    GhThrows jsstring
  | GhNotOk nat jsstring
  | GhJson 'a

definition gh :: "'a gh_answer \<Rightarrow> jsstring + 'a" where
  "gh answer =
     (case answer of
        GhThrows m \<Rightarrow> Inl m
      | GhNotOk status msg \<Rightarrow> Inl (js ''GitHub API error '' @ decimal status @ js '': '' @ msg)
      | GhJson j \<Rightarrow> Inr j)"

record tree_entry =
  entry_path :: jsstring
  entry_type :: jsstring

record TreeResp =
  tree_truncated :: bool
  tree :: "tree_entry list"

text \<open>
  The remote service of the lister: the repository metadata (of which \<open>default_branch\<close> is
  read) by owner and repo, and the recursive tree by owner, repo and ref.
\<close>

record github =
  repo_info :: "jsstring \<Rightarrow> jsstring \<Rightarrow> jsstring gh_answer"
  git_trees :: "jsstring \<Rightarrow> jsstring \<Rightarrow> jsstring \<Rightarrow> TreeResp gh_answer"

definition skipExt :: "jsstring list" where
  "skipExt = map js
     [''.png'', ''.jpg'', ''.jpeg'', ''.gif'', ''.webp'', ''.svg'', ''.ico'', ''.pdf'', ''.zip'',
      ''.gz'', ''.mp4'', ''.mp3'', ''.mov'', ''.ogg'', ''.ogv'', ''.webm'', ''.glb'', ''.gltf'']"

text \<open>The three filters of the handler, in its order.\<close>

definition blob_paths :: "tree_entry list \<Rightarrow> jsstring list" where
  "blob_paths entries = map entry_path (filter (\<lambda>t. entry_type t = js ''blob'') entries)"

definition under_root :: "jsstring option \<Rightarrow> jsstring list \<Rightarrow> jsstring list" where
  "under_root root files =
     (case root of
        None \<Rightarrow> files
      | Some r \<Rightarrow>
          if r \<noteq> [] \<and> length r \<noteq> 0
          then let pre = (if endsWith r (js ''/'') then r else r @ js ''/'')
               in map (\<lambda>p. p) (filter (\<lambda>p. startsWith p pre) files)
          else files)"

definition keep_extension :: "jsstring \<Rightarrow> bool" where
  "keep_extension p =
     (case lastIndexOf p 0x2E of
        None \<Rightarrow> True
      | Some dot \<Rightarrow> let ext = toLowerCase (drop dot p) in ext \<notin> set skipExt)"

definition list_files :: "jsstring option \<Rightarrow> tree_entry list \<Rightarrow> jsstring list" where
  "list_files root entries = filter keep_extension (under_root root (blob_paths entries))"

datatype ListFilesResponse =
    Listing jsstring jsstring jsstring "jsstring option" "jsstring list"
  | ListFailure nat jsstring

text \<open>\<open>refMaybe || repoInfo.default_branch\<close>.\<close>

definition ref_or_default :: "jsstring option \<Rightarrow> jsstring \<Rightarrow> jsstring" where
  "ref_or_default refMaybe default_branch =
     (case refMaybe of None \<Rightarrow> default_branch | Some r \<Rightarrow> or_else r default_branch)"

text \<open>
  The handler \<open>POST\<close> of the list-files route, for the \<open>repoUrl\<close> of the request body
  (which may be missing).
\<close>

definition POST_list_files ::
  "(jsstring \<Rightarrow> jsstring + url) \<Rightarrow> github \<Rightarrow> jsstring option \<Rightarrow> ListFilesResponse" where
  "POST_list_files URL g repoUrl =
     (if repoUrl = None \<or> repoUrl = Some [] then ListFailure 400 (js ''repoUrl is required'')
      else
        (case parseGitHubUrl URL (the repoUrl) of
           Inl m \<Rightarrow> ListFailure 400 (or_else m (js ''Failed to list files''))
         | Inr r \<Rightarrow>
             (case gh (repo_info g (owner r) (repo r)) of
                Inl m \<Rightarrow> ListFailure 400 (or_else m (js ''Failed to list files''))
              | Inr default_branch \<Rightarrow>
                  let ref' = ref_or_default (ref r) default_branch
                  in (case gh (git_trees g (owner r) (repo r) ref') of
                        Inl m \<Rightarrow> ListFailure 400 (or_else m (js ''Failed to list files''))
                      | Inr t \<Rightarrow>
                          Listing (owner r) (repo r) ref' (rootPath r)
                            (list_files (rootPath r) (tree t))))))"

section \<open>Notions used in the statements\<close>

text \<open>\<open>s.includes(x)\<close>: \<open>x\<close> occurs in \<open>s\<close> as a run of consecutive code units.\<close>

fun has_substring :: "jsstring \<Rightarrow> jsstring \<Rightarrow> bool" where
  "has_substring [] x = (x = [])"
| "has_substring (c # cs) x = (startsWith (c # cs) x \<or> has_substring cs x)"




text \<open>
  What the per-file stage makes of one file: the file with its content passed through
  the truncator at the per-file limit, and whether the truncator cut it.
\<close>

definition per_file :: "jsstring \<Rightarrow> jsstring \<Rightarrow> source_file \<times> bool" where
  "per_file p raw =
     (\<lparr>path = p, content = fst (maybeTruncateContent raw MAX_FILE_BYTES)\<rparr>,
      snd (maybeTruncateContent raw MAX_FILE_BYTES))"

definition fetch_one ::
  "world \<Rightarrow> jsstring \<Rightarrow> jsstring \<Rightarrow> jsstring \<Rightarrow> jsstring \<Rightarrow> (source_file \<times> bool) option" where
  "fetch_one w ow rp rf p =
     (case fst (ghGetContent w ow rp p rf) of
        Inl m \<Rightarrow> None
      | Inr raw \<Rightarrow> Some (per_file p raw))"

text \<open>
  The files a request gives to the budgeter, each with its per-file truncation flag:
  those of the first \<open>MAX_FILES\<close> files or paths, if every fetch succeeds.
\<close>

definition considered :: "world \<Rightarrow> AnalyzeBody \<Rightarrow> (source_file \<times> bool) list option" where
  "considered w body =
     (case body of
        Snippet fs \<Rightarrow>
          Some (map (\<lambda>f. per_file (path_or_default f) (content_or_empty f))
                  (take MAX_FILES (or_empty fs)))
      | Github ow rp rf ps \<Rightarrow> those (map (fetch_one w ow rp rf) (take MAX_FILES (or_empty ps)))
      | OtherMode \<Rightarrow> None)"

text \<open>
  A fetch fails when the contents endpoint rejects or answers not ok, or when it answers
  without base64 content and the raw-content host rejects or answers not ok.
\<close>

definition fetch_fails :: "world \<Rightarrow> jsstring \<Rightarrow> jsstring \<Rightarrow> jsstring \<Rightarrow> jsstring \<Rightarrow> bool" where
  "fetch_fails w ow rp p rf =
     (case contents_api w ow rp p rf of
        ContentsThrows m \<Rightarrow> True
      | ContentsNotOk st msg \<Rightarrow> True
      | ContentsJson c enc \<Rightarrow>
          (c = None \<or> c = Some [] \<or> enc \<noteq> Some (js ''base64''))
          \<and> (case raw_host w ow rp p rf of RawText t \<Rightarrow> False | RawNotOk \<Rightarrow> True | RawThrows m \<Rightarrow> True))"

text \<open>The paths asked of the contents endpoint, of the raw host, and the prompts sent.\<close>

fun fetched_paths :: "event list \<Rightarrow> jsstring list" where
  "fetched_paths [] = []"
| "fetched_paths (FetchContents ow rp p rf # evs) = p # fetched_paths evs"
| "fetched_paths (FetchRaw ow rp p rf # evs) = fetched_paths evs"
| "fetched_paths (ModelCall q # evs) = fetched_paths evs"

fun raw_paths :: "event list \<Rightarrow> jsstring list" where
  "raw_paths [] = []"
| "raw_paths (FetchContents ow rp p rf # evs) = raw_paths evs"
| "raw_paths (FetchRaw ow rp p rf # evs) = p # raw_paths evs"
| "raw_paths (ModelCall q # evs) = raw_paths evs"

fun model_calls :: "event list \<Rightarrow> jsstring list" where
  "model_calls [] = []"
| "model_calls (FetchContents ow rp p rf # evs) = model_calls evs"
| "model_calls (FetchRaw ow rp p rf # evs) = model_calls evs"
| "model_calls (ModelCall q # evs) = q # model_calls evs"

text \<open>
  A small environment for examples: the contents endpoint knows the file \<open>a.ts\<close>, whose
  content is \<open>xx\<close> (base64 \<open>eHg=\<close>), and answers 404 for every other path; the raw host
  answers not ok; the model answers \<open>{}\<close>.
\<close>

definition demo_world :: world where
  "demo_world =
     \<lparr>contents_api = (\<lambda>ow rp p rf.
         if p = js ''a.ts'' then ContentsJson (Some (js ''eHg='')) (Some (js ''base64''))
         else ContentsNotOk 404 (js ''Not Found'')),
      raw_host = (\<lambda>ow rp p rf. RawNotOk),
      base64_to_utf8 = (\<lambda>c. if c = js ''eHg='' then js ''xx'' else []),
      generateContent = (\<lambda>q. Inr (Some (js ''{}'')))\<rparr>"

text \<open>
  Two strings are the same but for the case of the letters \<open>A\<close> to \<open>Z\<close>.
\<close>

definition ascii_lower :: "16 word \<Rightarrow> 16 word" where
  "ascii_lower c = (if 0x41 \<le> c \<and> c \<le> 0x5A then c + 0x20 else c)"

definition same_ignoring_case :: "jsstring \<Rightarrow> jsstring \<Rightarrow> bool" where
  "same_ignoring_case a b = (map ascii_lower a = map ascii_lower b)"

text \<open>
  For examples: what \<open>new URL\<close> makes of three links, a tree listing, and a remote service
  whose default branch is \<open>main\<close> and which knows the tree of that branch only.
\<close>

definition demo_URL :: "jsstring \<Rightarrow> jsstring + url" where
  "demo_URL s =
     (if s = js ''https://github.com/o/r/tree/main/a/b''
      then Inr \<lparr>hostname = js ''github.com'', pathname = js ''/o/r/tree/main/a/b''\<rparr>
      else if s = js ''https://github.com/o/r/tree''
      then Inr \<lparr>hostname = js ''github.com'', pathname = js ''/o/r/tree''\<rparr>
      else if s = js ''https://gitlab.com/x/y''
      then Inr \<lparr>hostname = js ''gitlab.com'', pathname = js ''/x/y''\<rparr>
      else Inl (js ''Invalid URL''))"

definition demo_entries :: "tree_entry list" where
  "demo_entries =
     [\<lparr>entry_path = js ''src'', entry_type = js ''tree''\<rparr>,
      \<lparr>entry_path = js ''src/a.ts'', entry_type = js ''blob''\<rparr>,
      \<lparr>entry_path = js ''src/logo.PNG'', entry_type = js ''blob''\<rparr>,
      \<lparr>entry_path = js ''srcs/b.ts'', entry_type = js ''blob''\<rparr>,
      \<lparr>entry_path = js ''Makefile'', entry_type = js ''blob''\<rparr>]"

definition demo_github :: github where
  "demo_github =
     \<lparr>repo_info = (\<lambda>ow rp. GhJson (js ''main'')),
      git_trees = (\<lambda>ow rp rf.
         if rf = js ''main'' then GhJson \<lparr>tree_truncated = False, tree = demo_entries\<rparr>
         else GhNotOk 404 (js ''Not Found''))\<rparr>"

section \<open>Properties of the bundle budgeter\<close>

lemmas js_eval = js_def utf8_len_def is_high_surrogate_def is_low_surrogate_def

lemma enforce_cap_shape:
  "enforce_cap fs tot acc t = (tot', bounded, t') \<Longrightarrow>
     \<exists>n \<le> length fs. bounded = acc @ take n fs
       \<and> tot' = tot + summed_bytes (take n fs)
       \<and> (t' \<longleftrightarrow> t \<or> n < length fs)
       \<and> (n < length fs \<longrightarrow> tot' + bytes (content (fs ! n)) > MAX_TOTAL_BYTES)"
proof (induction fs arbitrary: tot acc)
  case Nil
  then show ?case by (simp add: summed_bytes_def)
next
  case (Cons f fs)
  show ?case
  proof (cases "tot + bytes (content f) > MAX_TOTAL_BYTES")
    case True
    with Cons.prems have "tot' = tot" "bounded = acc" "t'" by simp_all
    with True show ?thesis
      by (intro exI [of _ 0]) (simp add: summed_bytes_def)
  next
    case False
    with Cons.prems
    have "enforce_cap fs (tot + bytes (content f)) (acc @ [f]) t = (tot', bounded, t')"
      by simp
    from Cons.IH [OF this] obtain n where n: "n \<le> length fs"
      "bounded = (acc @ [f]) @ take n fs"
      "tot' = tot + bytes (content f) + summed_bytes (take n fs)"
      "t' \<longleftrightarrow> t \<or> n < length fs"
      "n < length fs \<longrightarrow> tot' + bytes (content (fs ! n)) > MAX_TOTAL_BYTES"
      by blast
    then show ?thesis
      by (intro exI [of _ "Suc n"]) (simp add: summed_bytes_def)
  qed
qed

lemma enforce_cap_total_bound:
  "enforce_cap fs tot acc t = (tot', bounded, t') \<Longrightarrow> tot \<le> MAX_TOTAL_BYTES \<Longrightarrow>
     tot' \<le> MAX_TOTAL_BYTES"
proof (induction fs arbitrary: tot acc)
  case Nil
  then show ?case by simp
next
  case (Cons f fs)
  then show ?case
    by (cases "tot + bytes (content f) > MAX_TOTAL_BYTES") (auto simp: Let_def)
qed

text \<open>
  C1. Whatever files the budgeter is given, the bundle it returns is a prefix of them, in
  their order: the file at a position is in the bundle exactly when the position is below
  the length of the bundle, so no file follows an excluded one. The contents of the bundle
  sum to the reported total, which is at most 200000 bytes.
\<close>

theorem budgeter_prefix_within_ceiling:
  assumes "enforce_cap files 0 [] t = (tot, bounded, t')"
  shows "prefix bounded files
         \<and> bounded = take (length bounded) files
         \<and> summed_bytes bounded = tot
         \<and> summed_bytes bounded \<le> 200000"
proof -
  from enforce_cap_shape [OF assms] obtain n where n: "n \<le> length files"
    "bounded = take n files" "tot = summed_bytes (take n files)"
    by auto
  from enforce_cap_total_bound [OF assms] have "tot \<le> 200000"
    by (simp add: MAX_TOTAL_BYTES_def)
  with n show ?thesis
    by (simp add: take_is_prefix)
qed

theorem budgeter_prefix_within_ceiling_witness:
  "enforce_cap [\<lparr>path = js ''a.ts'', content = js ''xx''\<rparr>, \<lparr>path = js ''b.ts'', content = js ''y''\<rparr>] 0 [] False
     = (3, [\<lparr>path = js ''a.ts'', content = js ''xx''\<rparr>, \<lparr>path = js ''b.ts'', content = js ''y''\<rparr>], False)
   \<and> prefix [\<lparr>path = js ''a.ts'', content = js ''xx''\<rparr>, \<lparr>path = js ''b.ts'', content = js ''y''\<rparr>]
        [\<lparr>path = js ''a.ts'', content = js ''xx''\<rparr>, \<lparr>path = js ''b.ts'', content = js ''y''\<rparr>]
   \<and> summed_bytes [\<lparr>path = js ''a.ts'', content = js ''xx''\<rparr>, \<lparr>path = js ''b.ts'', content = js ''y''\<rparr>] = 3
   \<and> summed_bytes [\<lparr>path = js ''a.ts'', content = js ''xx''\<rparr>, \<lparr>path = js ''b.ts'', content = js ''y''\<rparr>] \<le> 200000"
proof -
  have run: "enforce_cap [\<lparr>path = js ''a.ts'', content = js ''xx''\<rparr>, \<lparr>path = js ''b.ts'', content = js ''y''\<rparr>] 0 [] False
     = (3, [\<lparr>path = js ''a.ts'', content = js ''xx''\<rparr>, \<lparr>path = js ''b.ts'', content = js ''y''\<rparr>], False)"
    by (simp add: js_eval MAX_TOTAL_BYTES_def)
  from budgeter_prefix_within_ceiling [OF run] run show ?thesis
    by simp
qed


section \<open>Properties of the content truncator\<close>







lemma truncated_iff: "snd (maybeTruncateContent c limit) \<longleftrightarrow> limit < int (bytes c)"
  by (simp add: maybeTruncateContent_def Let_def)





section \<open>Properties of the request handler\<close>

lemma fetched_paths_append: "fetched_paths (a @ b) = fetched_paths a @ fetched_paths b"
  by (induction a rule: fetched_paths.induct) auto

lemma raw_paths_append: "raw_paths (a @ b) = raw_paths a @ raw_paths b"
  by (induction a rule: raw_paths.induct) auto

lemma model_calls_append: "model_calls (a @ b) = model_calls a @ model_calls b"
  by (induction a rule: model_calls.induct) auto

lemma ghGetContent_events:
  "prefix (fetched_paths (snd (ghGetContent w ow rp p rf))) [p]
   \<and> subseq (raw_paths (snd (ghGetContent w ow rp p rf)))
        (fetched_paths (snd (ghGetContent w ow rp p rf)))
   \<and> model_calls (snd (ghGetContent w ow rp p rf)) = []"
  by (simp add: ghGetContent_def split: contents_answer.splits raw_answer.splits)

lemma ghGetContent_success_events:
  "fst (ghGetContent w ow rp p rf) = Inr raw \<Longrightarrow>
     fetched_paths (snd (ghGetContent w ow rp p rf)) = [p]
     \<and> (raw_paths (snd (ghGetContent w ow rp p rf)) = []
          \<or> raw_paths (snd (ghGetContent w ow rp p rf)) = [p])"
  by (simp add: ghGetContent_def split: contents_answer.splits raw_answer.splits if_splits)

lemma ghGetContent_failed_events:
  "fst (ghGetContent w ow rp p rf) = Inl m \<Longrightarrow>
     fetched_paths (snd (ghGetContent w ow rp p rf)) = []
     \<or> fetched_paths (snd (ghGetContent w ow rp p rf)) = [p]"
  by (simp add: ghGetContent_def split: contents_answer.splits raw_answer.splits if_splits)

text \<open>
  A fetch fails when the remote service makes it fail, and otherwise only when the path or
  the ref is not well formed.
\<close>

lemma ghGetContent_fails_iff:
  "(\<exists>m. fst (ghGetContent w ow rp p rf) = Inl m)
     \<longleftrightarrow> \<not> isWellFormed p \<or> \<not> isWellFormed rf \<or> fetch_fails w ow rp p rf"
  by (auto simp: fetch_fails_def ghGetContent_def split: contents_answer.splits raw_answer.splits)

lemma if_True_else: "(if b then True else t) = (t \<or> b)"
  by auto

lemma fetch_files_Cons_Inl:
  "ghGetContent w ow rp p rf = (Inl m, evs0) \<Longrightarrow>
     fetch_files w ow rp rf (p # ps) acc t = (Inl m, evs0)"
  by simp

lemma fetch_files_Cons_Inr:
  "ghGetContent w ow rp p rf = (Inr raw, evs0) \<Longrightarrow>
     fetch_files w ow rp rf (p # ps) acc t =
       (fst (fetch_files w ow rp rf ps (acc @ [fst (per_file p raw)]) (t \<or> snd (per_file p raw))),
        evs0 @ snd (fetch_files w ow rp rf ps (acc @ [fst (per_file p raw)]) (t \<or> snd (per_file p raw))))"
  by (simp add: per_file_def if_True_else split: prod.splits)

declare fetch_files.simps(2) [simp del]

lemma snippet_files_eq:
  "snippet_files fs t =
     (map (\<lambda>f. fst (per_file (path_or_default f) (content_or_empty f))) fs,
      t \<or> (\<exists>f \<in> set fs. snd (per_file (path_or_default f) (content_or_empty f))))"
  by (induction fs arbitrary: t) (auto simp: per_file_def split: prod.splits)

lemma fetch_files_success:
  "fetch_files w ow rp rf ps acc t = (Inr (files, t'), evs) \<Longrightarrow>
     \<exists>cs. those (map (fetch_one w ow rp rf) ps) = Some cs
       \<and> files = acc @ map fst cs
       \<and> (t' \<longleftrightarrow> t \<or> (\<exists>c \<in> set cs. snd c))
       \<and> fetched_paths evs = ps"
proof (induction ps arbitrary: acc t evs)
  case Nil
  then show ?case by simp
next
  case (Cons p ps)
  obtain r evs0 where g: "ghGetContent w ow rp p rf = (r, evs0)"
    by (cases "ghGetContent w ow rp p rf")
  with Cons.prems obtain raw where r: "r = Inr raw"
    by (cases r) (auto simp: fetch_files_Cons_Inl)
  obtain res evs1 where rest:
    "fetch_files w ow rp rf ps (acc @ [fst (per_file p raw)]) (t \<or> snd (per_file p raw)) = (res, evs1)"
    by (cases "fetch_files w ow rp rf ps (acc @ [fst (per_file p raw)]) (t \<or> snd (per_file p raw))")
  from Cons.prems fetch_files_Cons_Inr [OF g [unfolded r], of ps acc t] rest
  have res: "res = Inr (files, t')" and evs: "evs = evs0 @ evs1"
    by simp_all
  from Cons.IH [OF rest [unfolded res]] obtain cs where cs:
    "those (map (fetch_one w ow rp rf) ps) = Some cs"
    "files = (acc @ [fst (per_file p raw)]) @ map fst cs"
    "t' \<longleftrightarrow> (t \<or> snd (per_file p raw)) \<or> (\<exists>c \<in> set cs. snd c)"
    "fetched_paths evs1 = ps"
    by blast
  from g r have one: "fetch_one w ow rp rf p = Some (per_file p raw)"
    by (simp add: fetch_one_def)
  from ghGetContent_success_events [of w ow rp p rf raw] g r have "fetched_paths evs0 = [p]"
    by simp
  with cs one evs show ?case
    by (intro exI [of _ "per_file p raw # cs"]) (auto simp: fetched_paths_append)
qed

lemma fetch_files_failure:
  "p \<in> set ps \<Longrightarrow> fst (ghGetContent w ow rp p rf) = Inl e \<Longrightarrow>
     \<exists>m. fst (fetch_files w ow rp rf ps acc t) = Inl m"
proof (induction ps arbitrary: acc t)
  case Nil
  then show ?case by simp
next
  case (Cons q qs)
  obtain r evs0 where g: "ghGetContent w ow rp q rf = (r, evs0)"
    by (cases "ghGetContent w ow rp q rf")
  show ?case
  proof (cases r)
    case (Inl m)
    with g show ?thesis
      by (simp add: fetch_files_Cons_Inl)
  next
    case (Inr raw)
    with Cons.prems g have "p \<in> set qs" by auto
    from Cons.IH [OF this Cons.prems(2)] g Inr show ?thesis
      by (simp add: fetch_files_Cons_Inr)
  qed
qed

lemma fetch_files_events:
  "prefix (fetched_paths (snd (fetch_files w ow rp rf ps acc t))) ps
   \<and> subseq (raw_paths (snd (fetch_files w ow rp rf ps acc t)))
        (fetched_paths (snd (fetch_files w ow rp rf ps acc t)))
   \<and> model_calls (snd (fetch_files w ow rp rf ps acc t)) = []"
proof (induction ps arbitrary: acc t)
  case Nil
  then show ?case by simp
next
  case (Cons q qs)
  obtain r evs0 where g: "ghGetContent w ow rp q rf = (r, evs0)"
    by (cases "ghGetContent w ow rp q rf")
  from ghGetContent_events [of w ow rp q rf] g
  have e0: "prefix (fetched_paths evs0) [q]" "subseq (raw_paths evs0) (fetched_paths evs0)"
    "model_calls evs0 = []"
    by simp_all
  show ?case
  proof (cases r)
    case (Inl m)
    have "prefix [q] (q # qs)"
      by simp
    with e0(1) have "prefix (fetched_paths evs0) (q # qs)"
      by (rule prefix_order.trans)
    with g Inl e0 show ?thesis
      by (simp add: fetch_files_Cons_Inl)
  next
    case (Inr raw)
    from ghGetContent_success_events [of w ow rp q rf raw] g Inr
    have e1: "fetched_paths evs0 = [q]" "raw_paths evs0 = [] \<or> raw_paths evs0 = [q]"
      by simp_all
    from Cons.IH [of "acc @ [fst (per_file q raw)]" "t \<or> snd (per_file q raw)"] g Inr e0 e1
    show ?thesis
      by (auto simp: fetch_files_Cons_Inr fetched_paths_append raw_paths_append
          model_calls_append)
  qed
qed

lemma review_cases:
  "review w files t evs = (resp, evs') \<Longrightarrow>
     \<exists>n \<le> length files. evs' = evs @ [ModelCall (prompt (take n files))]
        \<and> summed_bytes (take n files) \<le> MAX_TOTAL_BYTES
        \<and> ((\<exists>m. resp = Failure 400 m)
            \<or> (\<exists>text. resp = Success text (t \<or> n < length files) (summed_bytes (take n files)) n))"
proof -
  assume a: "review w files t evs = (resp, evs')"
  obtain tot bounded t' where e: "enforce_cap files 0 [] t = (tot, bounded, t')"
    by (cases "enforce_cap files 0 [] t")
  from enforce_cap_shape [OF e] obtain n where n: "n \<le> length files" "bounded = take n files"
    "tot = summed_bytes (take n files)" "t' \<longleftrightarrow> t \<or> n < length files"
    by auto
  from enforce_cap_total_bound [OF e] n have "summed_bytes (take n files) \<le> MAX_TOTAL_BYTES"
    by simp
  with a e n show ?thesis
    by (cases "generateContent w (prompt (take n files))")
      (auto simp: review_def intro!: exI [of _ n])
qed

lemma POST_success_shape:
  assumes "POST_analyze w body = (Success text tr tot n, evs)"
  shows "\<exists>cs. considered w body = Some cs
           \<and> n \<le> length cs
           \<and> tot = summed_bytes (take n (map fst cs))
           \<and> tot \<le> 200000
           \<and> (tr \<longleftrightarrow> (\<exists>c \<in> set cs. snd c) \<or> n < length cs)
           \<and> model_calls evs = [prompt (take n (map fst cs))]"
proof (cases body)
  case (Snippet fs)
  define cs where "cs = map (\<lambda>f. per_file (path_or_default f) (content_or_empty f))
                          (take MAX_FILES (or_empty fs))"
  have s: "snippet_files (take MAX_FILES (or_empty fs)) False = (map fst cs, \<exists>c \<in> set cs. snd c)"
    by (simp add: snippet_files_eq cs_def comp_def)
  with assms Snippet
  have "review w (map fst cs) (\<exists>c \<in> set cs. snd c) [] = (Success text tr tot n, evs)"
    by (simp add: POST_analyze_def)
  from review_cases [OF this] have "n \<le> length cs"
    "tot = summed_bytes (take n (map fst cs))" "tot \<le> 200000"
    "tr \<longleftrightarrow> (\<exists>c \<in> set cs. snd c) \<or> n < length cs"
    "evs = [ModelCall (prompt (take n (map fst cs)))]"
    by (auto simp: MAX_TOTAL_BYTES_def)
  moreover from Snippet have "considered w body = Some cs"
    by (simp add: considered_def cs_def)
  ultimately show ?thesis by simp
next
  case (Github ow rp rf ps)
  obtain r evs0 where f: "fetch_files w ow rp rf (take MAX_FILES (or_empty ps)) [] False = (r, evs0)"
    by (cases "fetch_files w ow rp rf (take MAX_FILES (or_empty ps)) [] False")
  with assms Github obtain files t where r: "r = Inr (files, t)"
    by (cases r) (auto simp: POST_analyze_def)
  from fetch_files_success [OF f [unfolded r]] obtain cs where cs:
    "those (map (fetch_one w ow rp rf) (take MAX_FILES (or_empty ps))) = Some cs"
    "files = map fst cs" "t \<longleftrightarrow> (\<exists>c \<in> set cs. snd c)"
    by auto
  from fetch_files_events [of w ow rp rf "take MAX_FILES (or_empty ps)" "[]" False] f
  have m0: "model_calls evs0 = []" by simp
  from assms Github f r
  have "review w files t evs0 = (Success text tr tot n, evs)"
    by (simp add: POST_analyze_def)
  from review_cases [OF this] cs m0 have "n \<le> length cs"
    "tot = summed_bytes (take n (map fst cs))" "tot \<le> 200000"
    "tr \<longleftrightarrow> (\<exists>c \<in> set cs. snd c) \<or> n < length cs"
    "model_calls evs = [prompt (take n (map fst cs))]"
    by (auto simp: MAX_TOTAL_BYTES_def model_calls_append)
  moreover from Github cs have "considered w body = Some cs"
    by (simp add: considered_def)
  ultimately show ?thesis by simp
next
  case OtherMode
  with assms show ?thesis
    by (simp add: POST_analyze_def)
qed

text \<open>
  C3. When the analyze request succeeds, the reported total is the sum of the UTF-8 byte
  lengths of the contents of the files in the bundle (the first \<open>fileCount\<close> of the files
  considered, which the one prompt sent to the model renders) and is at most 200000; the
  reported flag is true exactly when the truncator cut the content of one of the files
  considered or the budgeter excluded one of them.
\<close>

theorem analyze_totals_and_flag:
  assumes "POST_analyze w body = (Success text tr tot n, evs)"
  shows "\<exists>cs. considered w body = Some cs
           \<and> n \<le> length cs
           \<and> tot = summed_bytes (take n (map fst cs))
           \<and> tot \<le> 200000
           \<and> (tr \<longleftrightarrow> (\<exists>c \<in> set cs. snd c) \<or> n < length cs)
           \<and> model_calls evs = [prompt (take n (map fst cs))]"
  using assms by (rule POST_success_shape)

lemma demo_snippet_run:
  "POST_analyze demo_world
     (Snippet (Some [\<lparr>given_path = Some (js ''a.ts''), given_content = Some (js ''xx'')\<rparr>]))
   = (Success (Some (js ''{}'')) False 2 1,
      [ModelCall (prompt [\<lparr>path = js ''a.ts'', content = js ''xx''\<rparr>])])"
  by (simp add: POST_analyze_def MAX_FILES_def or_empty_def content_or_empty_def
      path_or_default_def or_else_def maybeTruncateContent_def MAX_FILE_BYTES_def js_eval
      review_def MAX_TOTAL_BYTES_def demo_world_def)

theorem analyze_totals_and_flag_witness:
  "POST_analyze demo_world
     (Snippet (Some [\<lparr>given_path = Some (js ''a.ts''), given_content = Some (js ''xx'')\<rparr>]))
   = (Success (Some (js ''{}'')) False 2 1,
      [ModelCall (prompt [\<lparr>path = js ''a.ts'', content = js ''xx''\<rparr>])])
   \<and> (\<exists>cs. considered demo_world
          (Snippet (Some [\<lparr>given_path = Some (js ''a.ts''), given_content = Some (js ''xx'')\<rparr>]))
          = Some cs
        \<and> 1 \<le> length cs
        \<and> 2 = summed_bytes (take 1 (map fst cs))
        \<and> (2::nat) \<le> 200000
        \<and> (False \<longleftrightarrow> (\<exists>c \<in> set cs. snd c) \<or> 1 < length cs)
        \<and> model_calls [ModelCall (prompt [\<lparr>path = js ''a.ts'', content = js ''xx''\<rparr>])]
            = [prompt (take 1 (map fst cs))])"
  using analyze_totals_and_flag [OF demo_snippet_run] demo_snippet_run
  by simp

text \<open>
  C9. In github mode, when the fetch of one of the paths that are fetched (the first 50 of
  the request) fails, because the contents endpoint rejects or answers not ok, or because it
  answers without base64 content and the raw-content fallback fails too, the whole request
  fails: the response is an error response with status 400 and a message, it carries no
  text, totals or file count, and no prompt is sent to the model.
\<close>

theorem github_fetch_failure_aborts:
  assumes "p \<in> set (take 50 ps)"
    and "fetch_fails w ow rp p rf"
  shows "\<exists>msg. fst (POST_analyze w (Github ow rp rf (Some ps))) = Failure 400 msg
           \<and> msg \<noteq> []
           \<and> model_calls (snd (POST_analyze w (Github ow rp rf (Some ps)))) = []"
proof -
  from assms(2) obtain e where "fst (ghGetContent w ow rp p rf) = Inl e"
    using ghGetContent_fails_iff [of w ow rp p rf] by blast
  from fetch_files_failure [OF _ this, of "take MAX_FILES ps" "[]" False] assms(1)
  obtain m where m: "fst (fetch_files w ow rp rf (take MAX_FILES ps) [] False) = Inl m"
    by (auto simp: MAX_FILES_def)
  obtain evs where f: "fetch_files w ow rp rf (take MAX_FILES ps) [] False = (Inl m, evs)"
    using m by (cases "fetch_files w ow rp rf (take MAX_FILES ps) [] False") auto
  from fetch_files_events [of w ow rp rf "take MAX_FILES ps" "[]" False] f
  have "model_calls evs = []" by simp
  with f show ?thesis
    by (simp add: POST_analyze_def or_empty_def or_else_def js_def)
qed

lemma demo_missing_fails:
  "js ''b.ts'' \<in> set (take 50 [js ''a.ts'', js ''b.ts'', js ''a.ts''])
   \<and> fetch_fails demo_world (js ''o'') (js ''r'') (js ''b.ts'') (js ''main'')"
  by (simp add: fetch_fails_def demo_world_def js_def)

theorem github_fetch_failure_aborts_witness:
  "js ''b.ts'' \<in> set (take 50 [js ''a.ts'', js ''b.ts'', js ''a.ts''])
   \<and> fetch_fails demo_world (js ''o'') (js ''r'') (js ''b.ts'') (js ''main'')
   \<and> POST_analyze demo_world (Github (js ''o'') (js ''r'') (js ''main'')
         (Some [js ''a.ts'', js ''b.ts'', js ''a.ts'']))
      = (Failure 400 (js ''GitHub content error 404: Not Found''),
         [FetchContents (js ''o'') (js ''r'') (js ''a.ts'') (js ''main''),
          FetchContents (js ''o'') (js ''r'') (js ''b.ts'') (js ''main'')])"
proof -
  have run: "POST_analyze demo_world (Github (js ''o'') (js ''r'') (js ''main'')
         (Some [js ''a.ts'', js ''b.ts'', js ''a.ts'']))
      = (Failure 400 (js ''GitHub content error 404: Not Found''),
         [FetchContents (js ''o'') (js ''r'') (js ''a.ts'') (js ''main''),
          FetchContents (js ''o'') (js ''r'') (js ''b.ts'') (js ''main'')])"
    by (simp add: POST_analyze_def MAX_FILES_def or_empty_def fetch_files.simps(2) ghGetContent_def
        demo_world_def maybeTruncateContent_def MAX_FILE_BYTES_def js_eval or_else_def
        decimal.simps)
  from github_fetch_failure_aborts [OF demo_missing_fails [THEN conjunct1] demo_missing_fails [THEN conjunct2]]
    demo_missing_fails run
  show ?thesis by simp
qed

lemma fetch_files_all_fetched:
  "isWellFormed rf \<Longrightarrow> \<forall>p \<in> set ps. isWellFormed p \<and> \<not> fetch_fails w ow rp p rf \<Longrightarrow>
     fetched_paths (snd (fetch_files w ow rp rf ps acc t)) = ps"
proof (induction ps arbitrary: acc t)
  case Nil
  then show ?case by simp
next
  case (Cons q qs)
  obtain r evs0 where g: "ghGetContent w ow rp q rf = (r, evs0)"
    by (cases "ghGetContent w ow rp q rf")
  from Cons.prems have "isWellFormed q" "isWellFormed rf" "\<not> fetch_fails w ow rp q rf"
    by simp_all
  with ghGetContent_fails_iff [of w ow rp q rf] g obtain raw where r: "r = Inr raw"
    by (cases r) auto
  from ghGetContent_success_events [of w ow rp q rf raw] g r have "fetched_paths evs0 = [q]"
    by simp
  moreover from Cons.prems
  have "fetched_paths (snd (fetch_files w ow rp rf qs (acc @ [fst (per_file q raw)])
          (t \<or> snd (per_file q raw)))) = qs"
    by (intro Cons.IH) simp_all
  ultimately show ?case
    using g r by (simp add: fetch_files_Cons_Inr fetched_paths_append)
qed

lemma POST_github_events:
  "snd (POST_analyze w (Github ow rp rf (Some ps)))
     = snd (fetch_files w ow rp rf (take MAX_FILES ps) [] False)
   \<or> (\<exists>q. snd (POST_analyze w (Github ow rp rf (Some ps)))
     = snd (fetch_files w ow rp rf (take MAX_FILES ps) [] False) @ [ModelCall q])"
proof (cases "fetch_files w ow rp rf (take MAX_FILES ps) [] False")
  case (Pair r evs0)
  show ?thesis
  proof (cases r)
    case (Inl m)
    with Pair show ?thesis
      by (simp add: POST_analyze_def or_empty_def)
  next
    case (Inr ft)
    obtain resp evs where rv: "review w (fst ft) (snd ft) evs0 = (resp, evs)"
      by (cases "review w (fst ft) (snd ft) evs0")
    from review_cases [OF rv] obtain q where "evs = evs0 @ [ModelCall q]"
      by blast
    with Pair Inr rv show ?thesis
      by (cases ft) (simp add: POST_analyze_def or_empty_def)
  qed
qed

lemma those_length: "those xs = Some ys \<Longrightarrow> length ys = length xs"
  by (induction xs arbitrary: ys) (auto split: option.splits)

lemma considered_length: "considered w body = Some cs \<Longrightarrow> length cs \<le> 50"
  by (cases body) (auto simp: considered_def MAX_FILES_def dest: those_length)

lemma POST_fileCount:
  "POST_analyze w body = (Success text tr tot n, evs) \<Longrightarrow> n \<le> 50"
proof -
  assume a: "POST_analyze w body = (Success text tr tot n, evs)"
  from POST_success_shape [OF a] obtain cs where cs: "considered w body = Some cs"
    "n \<le> length cs" by blast
  from considered_length [OF cs(1)] cs(2) show ?thesis by simp
qed

text \<open>
  C6. Only the first 50 files of a request are considered. In github mode the request is
  answered as if it held its first 50 paths only; the paths asked of the contents endpoint
  are, in order, a prefix of the first 50 paths of the request (all of them when the ref and
  these paths are well formed and the remote service makes no fetch fail), so at most 50,
  and the raw host is asked only for paths asked of the contents endpoint. In snippet mode the request is answered as if it held its first 50 files only,
  so a later file is not seen by the truncator. The reported file count is at most 50.
\<close>

theorem analyze_considers_first_50:
  assumes "POST_analyze w (Github ow rp rf (Some ps)) = (resp, evs)"
  shows "POST_analyze w (Github ow rp rf (Some (take 50 ps))) = (resp, evs)
         \<and> prefix (fetched_paths evs) (take 50 ps)
         \<and> subseq (raw_paths evs) (fetched_paths evs)
         \<and> length (fetched_paths evs) \<le> 50
         \<and> (isWellFormed rf
              \<and> (\<forall>p \<in> set (take 50 ps). isWellFormed p \<and> \<not> fetch_fails w ow rp p rf) \<longrightarrow>
               fetched_paths evs = take 50 ps)
         \<and> POST_analyze w (Snippet (Some fs)) = POST_analyze w (Snippet (Some (take 50 fs)))
         \<and> (\<forall>body text tr tot n evs'.
               POST_analyze w body = (Success text tr tot n, evs') \<longrightarrow> n \<le> 50)"
proof -
  have same: "POST_analyze w (Github ow rp rf (Some (take 50 ps))) = (resp, evs)"
    using assms by (simp add: POST_analyze_def or_empty_def MAX_FILES_def)
  let ?f = "snd (fetch_files w ow rp rf (take MAX_FILES ps) [] False)"
  from POST_github_events [of w ow rp rf ps] assms
  have evs: "fetched_paths evs = fetched_paths ?f" "raw_paths evs = raw_paths ?f"
    by (auto simp: fetched_paths_append raw_paths_append)
  from fetch_files_events [of w ow rp rf "take MAX_FILES ps" "[]" False] evs
  have pre: "prefix (fetched_paths evs) (take 50 ps)"
    and sub: "subseq (raw_paths evs) (fetched_paths evs)"
    by (simp_all add: MAX_FILES_def)
  from pre have "length (fetched_paths evs) \<le> length (take 50 ps)"
    by (rule prefix_length_le)
  then have len: "length (fetched_paths evs) \<le> 50" by simp
  have all: "isWellFormed rf
              \<and> (\<forall>p \<in> set (take 50 ps). isWellFormed p \<and> \<not> fetch_fails w ow rp p rf) \<longrightarrow>
               fetched_paths evs = take 50 ps"
    using fetch_files_all_fetched [of rf "take MAX_FILES ps" w ow rp "[]" False] evs
    by (simp add: MAX_FILES_def)
  have snip: "POST_analyze w (Snippet (Some fs)) = POST_analyze w (Snippet (Some (take 50 fs)))"
    by (simp add: POST_analyze_def or_empty_def MAX_FILES_def)
  from same pre sub len all snip POST_fileCount show ?thesis by blast
qed

theorem analyze_considers_first_50_witness:
  "length (replicate 60 (js ''a.ts'')) = 60
   \<and> isWellFormed (js ''main'')
   \<and> isWellFormed (js ''a.ts'')
   \<and> \<not> fetch_fails demo_world (js ''o'') (js ''r'') (js ''a.ts'') (js ''main'')
   \<and> fetched_paths (snd (POST_analyze demo_world
         (Github (js ''o'') (js ''r'') (js ''main'') (Some (replicate 60 (js ''a.ts''))))))
       = replicate 50 (js ''a.ts'')"
proof -
  let ?run = "POST_analyze demo_world
         (Github (js ''o'') (js ''r'') (js ''main'') (Some (replicate 60 (js ''a.ts''))))"
  have h: "?run = (fst ?run, snd ?run)"
    by simp
  have wf: "isWellFormed (js ''main'')" "isWellFormed (js ''a.ts'')"
    "\<not> fetch_fails demo_world (js ''o'') (js ''r'') (js ''a.ts'') (js ''main'')"
    by (simp_all add: fetch_fails_def demo_world_def js_eval)
  then have ok: "isWellFormed (js ''main'')
      \<and> (\<forall>p \<in> set (take 50 (replicate 60 (js ''a.ts''))).
            isWellFormed p \<and> \<not> fetch_fails demo_world (js ''o'') (js ''r'') p (js ''main''))"
    by simp
  from analyze_considers_first_50 [OF h, of "[]"] ok wf show ?thesis
    by simp
qed

text \<open>
  A path with a lone surrogate ends the request before its own fetch: of the paths
  \<open>a.ts\<close>, \<open>\ud800\<close>, \<open>a.ts\<close> only the first is asked of the contents endpoint, and the
  answer is status 400 with the message of the \<open>URIError\<close>.
\<close>

lemma lone_surrogate_path_stops_fetching:
  "POST_analyze demo_world (Github (js ''o'') (js ''r'') (js ''main'')
         (Some [js ''a.ts'', [0xD800], js ''a.ts'']))
      = (Failure 400 (js ''URI malformed''),
         [FetchContents (js ''o'') (js ''r'') (js ''a.ts'') (js ''main'')])"
  by (simp add: POST_analyze_def MAX_FILES_def or_empty_def fetch_files.simps(2) ghGetContent_def
      demo_world_def maybeTruncateContent_def MAX_FILE_BYTES_def js_eval or_else_def)

section \<open>Properties of the list-files route\<close>

lemma split_not_Nil: "split sep s \<noteq> []"
  by (induction s) (auto split: list.splits)

lemma split_no_sep: "sep \<notin> set s \<Longrightarrow> split sep s = [s]"
  by (induction s) auto

lemma split_append_sep: "sep \<notin> set s \<Longrightarrow> split sep (s @ sep # t) = s # split sep t"
  by (induction s) auto

lemma segments_join:
  "\<forall>x \<in> set segs. x \<noteq> [] \<and> sep \<notin> set x \<Longrightarrow>
     filter (\<lambda>x. x \<noteq> []) (split sep (join [sep] segs)) = segs"
  by (induction "[sep]" segs rule: join.induct) (auto simp: split_no_sep split_append_sep)

lemma segments_slash_join:
  "\<forall>x \<in> set segs. x \<noteq> [] \<and> sep \<notin> set x \<Longrightarrow>
     filter (\<lambda>x. x \<noteq> []) (split sep (sep # join [sep] segs)) = segs"
  using segments_join [of segs sep] by simp

lemma at_index_nth: "at_index xs i = (if i < length xs then Some (xs ! i) else None)"
  by (induction xs i rule: at_index.induct) auto

lemma parse_parts:
  assumes "URL s = Inr u" and "hostname u = js ''github.com''"
    and "filter (\<lambda>x. x \<noteq> []) (split 0x2F (pathname u)) = parts"
    and "2 \<le> length parts"
  shows "parseGitHubUrl URL s =
           (if at_index parts 2 = Some (js ''tree'') \<or> at_index parts 2 = Some (js ''blob'')
            then Inr \<lparr>owner = parts ! 0, repo = parts ! 1, ref = at_index parts 3,
                      rootPath = Some (join (js ''/'') (drop 4 parts))\<rparr>
            else Inr \<lparr>owner = parts ! 0, repo = parts ! 1, ref = None, rootPath = None\<rparr>)"
  using assms by (simp add: parseGitHubUrl_def Let_def)

lemma parse_tree_ref_a_b:
  assumes "URL s = Inr u" and "hostname u = js ''github.com''"
    and "\<forall>x \<in> set [ow, rp, rf, a, b]. x \<noteq> [] \<and> 0x2F \<notin> set x"
    and "pathname u = js ''/'' @ ow @ js ''/'' @ rp @ js ''/tree/'' @ rf @ js ''/'' @ a @ js ''/'' @ b"
  shows "parseGitHubUrl URL s =
           Inr \<lparr>owner = ow, repo = rp, ref = Some rf, rootPath = Some (a @ js ''/'' @ b)\<rparr>"
proof -
  let ?segs = "[ow, rp, js ''tree'', rf, a, b]"
  have p: "pathname u = 0x2F # join [0x2F] ?segs"
    using assms(4) by (simp add: js_def)
  have "\<forall>x \<in> set ?segs. x \<noteq> [] \<and> 0x2F \<notin> set x"
    using assms(3) by (simp add: js_def)
  from segments_slash_join [OF this]
  have parts: "filter (\<lambda>x. x \<noteq> []) (split 0x2F (pathname u)) = ?segs"
    by (simp only: p)
  have "join (js ''/'') (drop 4 ?segs) = a @ js ''/'' @ b"
    by simp
  with parse_parts [where URL = URL and s = s, OF assms(1,2) parts] show ?thesis
    by (simp add: at_index_nth)
qed

text \<open>
  C4. For a link that \<open>new URL\<close> accepts, whose host is \<open>github.com\<close> and whose path has
  at least two non-empty segments, the parser returns the first two segments as owner and
  repo. If the third segment is missing or is neither \<open>tree\<close> nor \<open>blob\<close>, ref and path are
  absent; if it is \<open>tree\<close> or \<open>blob\<close>, ref is the fourth segment and path is the remaining
  segments joined by \<open>/\<close>. In particular a path \<open>/owner/repo/tree/ref/a/b\<close> gives the ref
  \<open>ref\<close> and the path \<open>a/b\<close>.
\<close>

theorem parse_owner_repo_ref_path:
  assumes "URL s = Inr u" and "hostname u = js ''github.com''"
    and "filter (\<lambda>x. x \<noteq> []) (split 0x2F (pathname u)) = parts"
    and "2 \<le> length parts"
  shows "(at_index parts 2 \<noteq> Some (js ''tree'') \<and> at_index parts 2 \<noteq> Some (js ''blob'') \<longrightarrow>
            parseGitHubUrl URL s =
              Inr \<lparr>owner = parts ! 0, repo = parts ! 1, ref = None, rootPath = None\<rparr>)
       \<and> (at_index parts 2 = Some (js ''tree'') \<or> at_index parts 2 = Some (js ''blob'') \<longrightarrow>
            parseGitHubUrl URL s =
              Inr \<lparr>owner = parts ! 0, repo = parts ! 1, ref = at_index parts 3,
                    rootPath = Some (join (js ''/'') (drop 4 parts))\<rparr>)
       \<and> (\<forall>ow rp rf a b.
            (\<forall>x \<in> set [ow, rp, rf, a, b]. x \<noteq> [] \<and> 0x2F \<notin> set x)
            \<and> pathname u = js ''/'' @ ow @ js ''/'' @ rp @ js ''/tree/'' @ rf @ js ''/'' @ a @ js ''/'' @ b
            \<longrightarrow> parseGitHubUrl URL s =
                  Inr \<lparr>owner = ow, repo = rp, ref = Some rf, rootPath = Some (a @ js ''/'' @ b)\<rparr>)"
  using parse_parts [where URL = URL and s = s, OF assms]
    parse_tree_ref_a_b [where URL = URL and s = s, OF assms(1,2)] by auto

theorem parse_owner_repo_ref_path_witness:
  "demo_URL (js ''https://github.com/o/r/tree/main/a/b'')
     = Inr \<lparr>hostname = js ''github.com'', pathname = js ''/o/r/tree/main/a/b''\<rparr>
   \<and> filter (\<lambda>x. x \<noteq> []) (split 0x2F (js ''/o/r/tree/main/a/b''))
     = [js ''o'', js ''r'', js ''tree'', js ''main'', js ''a'', js ''b'']
   \<and> parseGitHubUrl demo_URL (js ''https://github.com/o/r/tree/main/a/b'')
     = Inr \<lparr>owner = js ''o'', repo = js ''r'', ref = Some (js ''main''),
             rootPath = Some (js ''a/b'')\<rparr>"
proof -
  have u: "demo_URL (js ''https://github.com/o/r/tree/main/a/b'')
     = Inr \<lparr>hostname = js ''github.com'', pathname = js ''/o/r/tree/main/a/b''\<rparr>"
    by (simp add: demo_URL_def)
  have h: "hostname \<lparr>hostname = js ''github.com'', pathname = js ''/o/r/tree/main/a/b''\<rparr>
     = js ''github.com''"
    by simp
  have parts: "filter (\<lambda>x. x \<noteq> [])
       (split 0x2F (pathname \<lparr>hostname = js ''github.com'', pathname = js ''/o/r/tree/main/a/b''\<rparr>))
     = [js ''o'', js ''r'', js ''tree'', js ''main'', js ''a'', js ''b'']"
    by (simp add: js_def)
  have len: "2 \<le> length [js ''o'', js ''r'', js ''tree'', js ''main'', js ''a'', js ''b'']"
    by simp
  from parse_owner_repo_ref_path [where URL = demo_URL
      and s = "js ''https://github.com/o/r/tree/main/a/b''", OF u h parts len] u parts
  show ?thesis
    by (simp add: at_index_nth js_def)
qed

lemma or_else_nonempty: "b \<noteq> [] \<Longrightarrow> or_else a b \<noteq> []"
  by (simp add: or_else_def)

lemma parse_failure:
  assumes "URL s = Inl m
           \<or> (\<exists>u. URL s = Inr u
                  \<and> (hostname u \<noteq> js ''github.com''
                      \<or> length (filter (\<lambda>x. x \<noteq> []) (split 0x2F (pathname u))) < 2))"
  shows "\<exists>msg. parseGitHubUrl URL s = Inl msg \<and> msg \<noteq> []"
  using assms
  by (auto simp: parseGitHubUrl_def Let_def or_else_def js_def split: sum.splits)

lemma parse_other_host:
  "URL s = Inr u \<Longrightarrow> hostname u \<noteq> js ''github.com'' \<Longrightarrow>
     parseGitHubUrl URL s = Inl (js ''Only github.com links are supported'')"
  by (simp add: parseGitHubUrl_def or_else_def js_def)

lemma POST_list_files_parse_failure:
  "parseGitHubUrl URL s = Inl msg \<Longrightarrow> msg \<noteq> [] \<Longrightarrow>
     \<exists>msg'. POST_list_files URL g (Some s) = ListFailure 400 msg' \<and> msg' \<noteq> []
        \<and> (s \<noteq> [] \<longrightarrow> msg' = msg)"
  by (simp add: POST_list_files_def or_else_def js_def)

text \<open>
  C5, as amended. When \<open>new URL\<close> throws, or the host is not \<open>github.com\<close>, or the path has
  fewer than two non-empty segments, the parser throws an error with a non-empty message and
  returns no reference, and the list-files handler answers with status 400 and a non-empty
  error message (the parser's message, for a non-empty \<open>repoUrl\<close>). For another host the
  message is the fixed text \<open>Only github.com links are supported\<close>.
\<close>

theorem parse_rejects_bad_input:
  assumes "URL s = Inl m
           \<or> (\<exists>u. URL s = Inr u
                  \<and> (hostname u \<noteq> js ''github.com''
                      \<or> length (filter (\<lambda>x. x \<noteq> []) (split 0x2F (pathname u))) < 2))"
  shows "\<exists>msg. parseGitHubUrl URL s = Inl msg \<and> msg \<noteq> []
           \<and> (\<exists>msg'. POST_list_files URL g (Some s) = ListFailure 400 msg' \<and> msg' \<noteq> []
                  \<and> (s \<noteq> [] \<longrightarrow> msg' = msg))
           \<and> (\<forall>u. URL s = Inr u \<and> hostname u \<noteq> js ''github.com'' \<longrightarrow>
                  msg = js ''Only github.com links are supported'')"
proof -
  from parse_failure [where URL = URL and s = s, OF assms] obtain msg
    where msg: "parseGitHubUrl URL s = Inl msg" "msg \<noteq> []"
    by blast
  from POST_list_files_parse_failure [OF msg] obtain msg'
    where "POST_list_files URL g (Some s) = ListFailure 400 msg'" "msg' \<noteq> []"
      "s \<noteq> [] \<longrightarrow> msg' = msg"
    by blast
  moreover have "\<forall>u. URL s = Inr u \<and> hostname u \<noteq> js ''github.com'' \<longrightarrow>
                  msg = js ''Only github.com links are supported''"
    using msg(1) parse_other_host [where URL = URL and s = s] by auto
  ultimately show ?thesis
    using msg by blast
qed

text \<open>
  C5, as stated, says that for \<open>https://gitlab.com/x/y\<close> the error names the unsupported
  host. The message of the error is \<open>Only github.com links are supported\<close>: it names the
  one supported host, and \<open>gitlab.com\<close> does not occur in it.
\<close>

theorem gitlab_error_does_not_name_host:
  "POST_list_files demo_URL demo_github (Some (js ''https://gitlab.com/x/y''))
     = ListFailure 400 (js ''Only github.com links are supported'')
   \<and> \<not> has_substring (js ''Only github.com links are supported'') (js ''gitlab.com'')"
  by (simp add: POST_list_files_def parseGitHubUrl_def demo_URL_def or_else_def js_def
      startsWith_def)

theorem parse_rejects_bad_input_witness:
  "(\<exists>u. demo_URL (js ''https://gitlab.com/x/y'') = Inr u \<and> hostname u \<noteq> js ''github.com'')
   \<and> parseGitHubUrl demo_URL (js ''https://gitlab.com/x/y'')
        = Inl (js ''Only github.com links are supported'')
   \<and> POST_list_files demo_URL demo_github (Some (js ''https://gitlab.com/x/y''))
        = ListFailure 400 (js ''Only github.com links are supported'')"
proof -
  have u: "demo_URL (js ''https://gitlab.com/x/y'')
      = Inr \<lparr>hostname = js ''gitlab.com'', pathname = js ''/x/y''\<rparr>"
    by (simp add: demo_URL_def js_def)
  have h: "hostname \<lparr>hostname = js ''gitlab.com'', pathname = js ''/x/y''\<rparr> \<noteq> js ''github.com''"
    by (simp add: js_def)
  have ne: "js ''https://gitlab.com/x/y'' \<noteq> []"
    by (simp add: js_def)
  from u h have hyp: "demo_URL (js ''https://gitlab.com/x/y'') = Inl []
           \<or> (\<exists>u. demo_URL (js ''https://gitlab.com/x/y'') = Inr u
                  \<and> (hostname u \<noteq> js ''github.com''
                      \<or> length (filter (\<lambda>x. x \<noteq> []) (split 0x2F (pathname u))) < 2))"
    by simp
  from parse_rejects_bad_input [where URL = demo_URL and s = "js ''https://gitlab.com/x/y''"
      and g = demo_github, OF hyp] u h ne
  show ?thesis
    by auto
qed

lemma lastIndexOf_None: "lastIndexOf s c = None \<longleftrightarrow> c \<notin> set s"
  by (induction s) (auto split: option.splits)

lemma lastIndexOf_last: "c \<notin> set e \<Longrightarrow> lastIndexOf (stem @ c # e) c = Some (length stem)"
  by (induction stem) (auto simp: lastIndexOf_None [THEN iffD2])

lemma skipExt_lower: "d \<in> set skipExt \<Longrightarrow> map ascii_lower d = d \<and> 0x212A \<notin> set d"
  by (auto simp: skipExt_def js_def ascii_lower_def)

lemma toLowerCase_ascii:
  "0x212A \<notin> set (map ascii_lower x) \<Longrightarrow> toLowerCase x = map ascii_lower x"
  by (induction x) (auto simp: toLowerCase_def lower_unit_def ascii_lower_def)

lemma denylisted_not_kept:
  assumes "0x2E \<notin> set e" and "d \<in> set skipExt" and "same_ignoring_case (0x2E # e) d"
  shows "\<not> keep_extension (stem @ 0x2E # e)"
proof -
  from skipExt_lower [OF assms(2)] assms(3)
  have m: "map ascii_lower (0x2E # e) = d" "0x212A \<notin> set (map ascii_lower (0x2E # e))"
    by (simp_all add: same_ignoring_case_def)
  from toLowerCase_ascii [OF m(2)] m(1) have "toLowerCase (0x2E # e) = d"
    by simp
  with lastIndexOf_last [OF assms(1), of stem] assms(2) show ?thesis
    by (simp add: keep_extension_def)
qed

lemma no_dot_kept: "0x2E \<notin> set p \<Longrightarrow> keep_extension p"
  by (simp add: keep_extension_def lastIndexOf_None [THEN iffD2])

text \<open>
  C7. A path whose part from its last \<open>.\<close> on is, but for the case of its letters, one of
  the denylisted extensions (\<open>.png\<close> as well as \<open>.PNG\<close>) is not in the filtered listing;
  a path without any \<open>.\<close> passes the extension filter, so it is in the filtered listing
  whenever it passed the blob and subpath filters.
\<close>

theorem denylisted_extension_dropped:
  "(0x2E \<notin> set e \<and> (\<exists>d \<in> set skipExt. same_ignoring_case (0x2E # e) d) \<longrightarrow>
      stem @ 0x2E # e \<notin> set (list_files root entries))
   \<and> (0x2E \<notin> set p \<and> p \<in> set (under_root root (blob_paths entries)) \<longrightarrow>
      keep_extension p \<and> p \<in> set (list_files root entries))"
  using denylisted_not_kept [of e _ stem] no_dot_kept [of p]
  by (auto simp: list_files_def)

lemmas list_eval = list_files_def under_root_def blob_paths_def keep_extension_def
  toLowerCase_def lower_unit_def skipExt_def startsWith_def endsWith_def

lemma demo_listing:
  "list_files None demo_entries = [js ''src/a.ts'', js ''srcs/b.ts'', js ''Makefile'']"
  by (simp add: list_eval demo_entries_def js_def)

theorem denylisted_extension_dropped_witness:
  "0x2E \<notin> set (js ''PNG'')
   \<and> js ''.png'' \<in> set skipExt
   \<and> same_ignoring_case (0x2E # js ''PNG'') (js ''.png'')
   \<and> js ''src/logo'' @ 0x2E # js ''PNG'' = js ''src/logo.PNG''
   \<and> js ''src/logo.PNG'' \<in> set (blob_paths demo_entries)
   \<and> js ''src/logo.PNG'' \<notin> set (list_files None demo_entries)
   \<and> 0x2E \<notin> set (js ''Makefile'')
   \<and> js ''Makefile'' \<in> set (under_root None (blob_paths demo_entries))
   \<and> js ''Makefile'' \<in> set (list_files None demo_entries)"
proof -
  have a: "0x2E \<notin> set (js ''PNG'')" "js ''.png'' \<in> set skipExt"
    "same_ignoring_case (0x2E # js ''PNG'') (js ''.png'')"
    by (simp_all add: js_def skipExt_def same_ignoring_case_def ascii_lower_def)
  have b: "0x2E \<notin> set (js ''Makefile'')"
    "js ''Makefile'' \<in> set (under_root None (blob_paths demo_entries))"
    "js ''src/logo.PNG'' \<in> set (blob_paths demo_entries)"
    "js ''src/logo'' @ 0x2E # js ''PNG'' = js ''src/logo.PNG''"
    by (simp_all add: js_def under_root_def blob_paths_def demo_entries_def)
  from denylisted_extension_dropped [of "js ''PNG''" "js ''src/logo''" None demo_entries
      "js ''Makefile''"] a b
  show ?thesis by auto
qed

lemma startsWith_prefix: "startsWith s pre \<longleftrightarrow> prefix pre s"
  by (metis append_eq_conv_conj prefix_def startsWith_def take_is_prefix)

lemma endsWith_slash: "endsWith r (js ''/'') \<longleftrightarrow> r \<noteq> [] \<and> last r = 0x2F"
  by (cases r rule: rev_cases) (auto simp: endsWith_def js_def)

lemma blob_paths_set:
  "set (blob_paths entries) = {entry_path t | t. t \<in> set entries \<and> entry_type t = js ''blob''}"
  by (auto simp: blob_paths_def)

lemma blob_paths_subseq: "subseq (blob_paths entries) (map entry_path entries)"
  by (simp add: blob_paths_def subseq_map)

lemma under_root_subseq: "subseq (under_root root files) files"
  by (auto simp: under_root_def Let_def split: option.splits)

lemma under_root_subset: "set (under_root root files) \<subseteq> set files"
  by (auto simp: under_root_def Let_def split: option.splits)

lemma under_root_set:
  "r \<noteq> [] \<Longrightarrow>
     set (under_root (Some r) files)
       = {p \<in> set files. prefix (if last r = 0x2F then r else r @ js ''/'') p}"
  by (auto simp: under_root_def Let_def startsWith_prefix endsWith_slash)

text \<open>
  C8. Every path of the listing is the path of a blob entry of the tree, and the listing
  keeps the order of the tree. For a non-empty subpath, the paths that pass the subpath
  filter are exactly the paths of the blob entries that start with the subpath followed by
  \<open>/\<close> (with the subpath itself, when it ends with \<open>/\<close>), again in the order of the tree;
  the listing is what the extension filter keeps of them.
\<close>

theorem lister_keeps_blobs_under_root:
  "(\<forall>p \<in> set (list_files root entries).
       \<exists>t \<in> set entries. entry_type t = js ''blob'' \<and> entry_path t = p)
   \<and> subseq (list_files root entries) (map entry_path entries)
   \<and> list_files root entries = filter keep_extension (under_root root (blob_paths entries))
   \<and> subseq (under_root root (blob_paths entries)) (map entry_path entries)
   \<and> (r \<noteq> [] \<longrightarrow>
        set (under_root (Some r) (blob_paths entries))
          = {entry_path t | t. t \<in> set entries \<and> entry_type t = js ''blob''
               \<and> prefix (if last r = 0x2F then r else r @ js ''/'') (entry_path t)})"
proof -
  have s1: "subseq (under_root root (blob_paths entries)) (map entry_path entries)"
    using under_root_subseq blob_paths_subseq by (rule subseq_order.trans)
  have s2: "subseq (list_files root entries) (map entry_path entries)"
    unfolding list_files_def using subseq_filter_left s1 by (rule subseq_order.trans)
  have "set (list_files root entries) \<subseteq> set (blob_paths entries)"
    using under_root_subset [of root "blob_paths entries"]
    by (auto simp: list_files_def)
  then have b: "\<forall>p \<in> set (list_files root entries).
       \<exists>t \<in> set entries. entry_type t = js ''blob'' \<and> entry_path t = p"
    by (auto simp: blob_paths_set)
  have u: "r \<noteq> [] \<longrightarrow>
        set (under_root (Some r) (blob_paths entries))
          = {entry_path t | t. t \<in> set entries \<and> entry_type t = js ''blob''
               \<and> prefix (if last r = 0x2F then r else r @ js ''/'') (entry_path t)}"
    by (auto simp: under_root_set blob_paths_set)
  from b s2 s1 u show ?thesis
    by (simp add: list_files_def)
qed

theorem lister_keeps_blobs_under_root_witness:
  "js ''src'' \<noteq> []
   \<and> under_root (Some (js ''src'')) (blob_paths demo_entries) = [js ''src/a.ts'', js ''src/logo.PNG'']
   \<and> list_files (Some (js ''src'')) demo_entries = [js ''src/a.ts'']
   \<and> list_files (Some (js ''src/'')) demo_entries = [js ''src/a.ts'']
   \<and> set [js ''src/a.ts'', js ''src/logo.PNG'']
       = {entry_path t | t. t \<in> set demo_entries \<and> entry_type t = js ''blob''
               \<and> prefix (if last (js ''src'') = 0x2F then js ''src'' else js ''src'' @ js ''/'')
                    (entry_path t)}"
proof -
  have e: "js ''src'' \<noteq> []"
    "under_root (Some (js ''src'')) (blob_paths demo_entries) = [js ''src/a.ts'', js ''src/logo.PNG'']"
    "list_files (Some (js ''src'')) demo_entries = [js ''src/a.ts'']"
    "list_files (Some (js ''src/'')) demo_entries = [js ''src/a.ts'']"
    by (simp_all add: list_eval demo_entries_def js_def)
  from lister_keeps_blobs_under_root [of "Some (js ''src'')" demo_entries "js ''src''"] e
  show ?thesis by simp
qed

lemma under_root_empty: "under_root (Some []) files = files"
  by (simp add: under_root_def)

lemma POST_list_files_ok:
  assumes "s \<noteq> []" and "parseGitHubUrl URL s = Inr x"
    and "repo_info g (owner x) (repo x) = GhJson d"
    and "git_trees g (owner x) (repo x) (ref_or_default (ref x) d) = GhJson t"
  shows "POST_list_files URL g (Some s)
           = Listing (owner x) (repo x) (ref_or_default (ref x) d) (rootPath x)
               (list_files (rootPath x) (tree t))"
  using assms by (simp add: POST_list_files_def gh_def Let_def)

text \<open>
  C10. For a \<open>github.com\<close> link whose third segment is \<open>tree\<close> or \<open>blob\<close> and which has at
  most one more segment, the parser returns the empty string as path (present, not absent).
  With the empty path the lister filters by no subpath: the listing is every blob path that
  the extension filter keeps. With three segments only, ref is undefined and the handler
  lists the default branch of the repository.
\<close>

theorem tree_url_without_subpath:
  assumes "URL s = Inr u" and "hostname u = js ''github.com''"
    and "filter (\<lambda>x. x \<noteq> []) (split 0x2F (pathname u)) = parts"
    and "at_index parts 2 = Some (js ''tree'') \<or> at_index parts 2 = Some (js ''blob'')"
    and "length parts \<le> 4"
  shows "parseGitHubUrl URL s =
           Inr \<lparr>owner = parts ! 0, repo = parts ! 1, ref = at_index parts 3, rootPath = Some []\<rparr>
       \<and> list_files (Some []) entries = filter keep_extension (blob_paths entries)
       \<and> (s \<noteq> [] \<and> repo_info g (parts ! 0) (parts ! 1) = GhJson d
            \<and> git_trees g (parts ! 0) (parts ! 1) (ref_or_default (at_index parts 3) d) = GhJson t
          \<longrightarrow> POST_list_files URL g (Some s)
                = Listing (parts ! 0) (parts ! 1) (ref_or_default (at_index parts 3) d) (Some [])
                    (filter keep_extension (blob_paths (tree t))))
       \<and> (length parts = 3 \<longrightarrow>
            at_index parts 3 = None \<and> ref_or_default (at_index parts 3) d = d)"
proof -
  from assms(4) have len: "3 \<le> length parts"
    by (auto simp: at_index_nth split: if_splits)
  then have "2 \<le> length parts" by simp
  from parse_parts [where URL = URL and s = s, OF assms(1,2,3) this] assms(4,5)
  have p: "parseGitHubUrl URL s =
           Inr \<lparr>owner = parts ! 0, repo = parts ! 1, ref = at_index parts 3, rootPath = Some []\<rparr>"
    by auto
  have l: "list_files (Some []) entries = filter keep_extension (blob_paths entries)" for entries
    by (simp add: list_files_def under_root_empty)
  have post: "s \<noteq> [] \<and> repo_info g (parts ! 0) (parts ! 1) = GhJson d
            \<and> git_trees g (parts ! 0) (parts ! 1) (ref_or_default (at_index parts 3) d) = GhJson t
          \<longrightarrow> POST_list_files URL g (Some s)
                = Listing (parts ! 0) (parts ! 1) (ref_or_default (at_index parts 3) d) (Some [])
                    (filter keep_extension (blob_paths (tree t)))"
    using POST_list_files_ok [where URL = URL and s = s, OF _ p, of g d t] l
    by simp
  have "length parts = 3 \<longrightarrow>
            at_index parts 3 = None \<and> ref_or_default (at_index parts 3) d = d"
    by (simp add: at_index_nth ref_or_default_def)
  with p l post show ?thesis by blast
qed

theorem tree_url_without_subpath_witness:
  "demo_URL (js ''https://github.com/o/r/tree'')
     = Inr \<lparr>hostname = js ''github.com'', pathname = js ''/o/r/tree''\<rparr>
   \<and> filter (\<lambda>x. x \<noteq> []) (split 0x2F (js ''/o/r/tree'')) = [js ''o'', js ''r'', js ''tree'']
   \<and> parseGitHubUrl demo_URL (js ''https://github.com/o/r/tree'')
       = Inr \<lparr>owner = js ''o'', repo = js ''r'', ref = None, rootPath = Some []\<rparr>
   \<and> POST_list_files demo_URL demo_github (Some (js ''https://github.com/o/r/tree''))
       = Listing (js ''o'') (js ''r'') (js ''main'') (Some [])
           [js ''src/a.ts'', js ''srcs/b.ts'', js ''Makefile'']"
proof -
  have u: "demo_URL (js ''https://github.com/o/r/tree'')
     = Inr \<lparr>hostname = js ''github.com'', pathname = js ''/o/r/tree''\<rparr>"
    by (simp add: demo_URL_def js_def)
  have h: "hostname \<lparr>hostname = js ''github.com'', pathname = js ''/o/r/tree''\<rparr> = js ''github.com''"
    by simp
  have parts: "filter (\<lambda>x. x \<noteq> [])
       (split 0x2F (pathname \<lparr>hostname = js ''github.com'', pathname = js ''/o/r/tree''\<rparr>))
     = [js ''o'', js ''r'', js ''tree'']"
    by (simp add: js_def)
  have third: "at_index [js ''o'', js ''r'', js ''tree''] 2 = Some (js ''tree'')
       \<or> at_index [js ''o'', js ''r'', js ''tree''] 2 = Some (js ''blob'')"
    by (simp add: at_index_nth)
  have len: "length [js ''o'', js ''r'', js ''tree''] \<le> 4"
    by simp
  have world: "js ''https://github.com/o/r/tree'' \<noteq> []"
    "repo_info demo_github (js ''o'') (js ''r'') = GhJson (js ''main'')"
    "git_trees demo_github (js ''o'') (js ''r'') (js ''main'')
       = GhJson \<lparr>tree_truncated = False, tree = demo_entries\<rparr>"
    by (simp_all add: demo_github_def js_def)
  have l: "filter keep_extension (blob_paths demo_entries)
      = [js ''src/a.ts'', js ''srcs/b.ts'', js ''Makefile'']"
    using demo_listing by (simp add: list_files_def under_root_def)
  from tree_url_without_subpath [where URL = demo_URL and s = "js ''https://github.com/o/r/tree''"
      and g = demo_github and d = "js ''main''"
      and t = "\<lparr>tree_truncated = False, tree = demo_entries\<rparr>", OF u h parts third len]
    u parts world l
  show ?thesis
    by (simp add: at_index_nth ref_or_default_def)
qed


end
